theory Spec2Isabelle
  imports Complex_Main
begin

section \<open>The double pendulum of main.py\<close>

text \<open>
  Python floats are read as real numbers throughout: \<open>math.sin\<close>, \<open>math.cos\<close>,
  \<open>math.acos\<close>, \<open>math.hypot\<close> and \<open>math.atan2\<close> are the real functions, \<open>x ** 2\<close> is
  the square, and rounding, overflow and the non-finite values of IEEE arithmetic are
  outside the model. What Python raises on exact values is kept: a division by zero is
  \<open>ZeroDivisionError\<close>, a list assignment out of range is \<open>IndexError\<close>, and
  \<open>math.acos\<close> outside \<open>[-1, 1]\<close> is \<open>ValueError\<close>.
\<close>

datatype error = ZeroDivisionError | IndexError | ValueError

definition py_div :: "real \<Rightarrow> real \<Rightarrow> error + real" where
  "py_div a b = (if b = 0 then Inl ZeroDivisionError else Inr (a / b))"

subsection \<open>class DoublePendulum\<close>

record pendulum =
  m1 :: real
  m2 :: real
  L1 :: real
  L2 :: real
  g :: real
  damping :: real
  theta1 :: real
  theta2 :: real
  omega1 :: real
  omega2 :: real
  initial_energy :: "real option"

text \<open>\<open>__init__\<close>, lines 11-25; the keyword defaults are those of \<open>DoublePendulum()\<close>.\<close>

definition DoublePendulum :: "real \<Rightarrow> real \<Rightarrow> real \<Rightarrow> real \<Rightarrow> real \<Rightarrow> real \<Rightarrow> pendulum" where
  "DoublePendulum a b c d e f =
     \<lparr>m1 = a, m2 = b, L1 = c, L2 = d, g = e, damping = f,
      theta1 = pi / 2, theta2 = pi / 2, omega1 = 0, omega2 = 0,
      initial_energy = None\<rparr>"

definition DoublePendulum_default :: pendulum where
  "DoublePendulum_default = DoublePendulum 1 1 1 1 (981 / 100) 0"

text \<open>\<open>state\<close>, lines 34-35.\<close>

definition state :: "pendulum \<Rightarrow> real \<times> real \<times> real \<times> real" where
  "state p = (theta1 p, theta2 p, omega1 p, omega2 p)"

text \<open>
  \<open>_derivatives\<close>, lines 37-65. \<open>den1\<close> is the local of line 41, a function of
  \<open>delta = theta2 - theta1\<close>; the three divisions of lines 42, 49 and 59 are evaluated
  in the order of the source.
\<close>

definition den1 :: "pendulum \<Rightarrow> real \<Rightarrow> real" where
  "den1 p delta = (m1 p + m2 p) * L1 p - m2 p * L1 p * (cos delta)\<^sup>2"

definition derivatives ::
  "pendulum \<Rightarrow> real \<Rightarrow> real \<Rightarrow> real \<Rightarrow> real \<Rightarrow> error + (real \<times> real \<times> real \<times> real)" where
  "derivatives p th1 th2 w1 w2 =
     (let delta = th2 - th1 in
      case py_div (L2 p) (L1 p) of
        Inl e \<Rightarrow> Inl e
      | Inr q \<Rightarrow>
          (let den2 = q * den1 p delta in
           case py_div
                  (m2 p * L1 p * w1\<^sup>2 * sin delta * cos delta
                   + m2 p * g p * sin th2 * cos delta
                   + m2 p * L2 p * w2\<^sup>2 * sin delta
                   - (m1 p + m2 p) * g p * sin th1)
                  (den1 p delta) of
             Inl e \<Rightarrow> Inl e
           | Inr domega1 \<Rightarrow>
               (case py_div
                       (- m2 p * L2 p * w2\<^sup>2 * sin delta * cos delta
                        + (m1 p + m2 p)
                          * (g p * sin th1 * cos delta
                             - L1 p * w1\<^sup>2 * sin delta
                             - g p * sin th2))
                       den2 of
                  Inl e \<Rightarrow> Inl e
                | Inr domega2 \<Rightarrow>
                    Inr (w1, w2, domega1 - damping p * w1, domega2 - damping p * w2))))"

text \<open>
  \<open>step\<close>, lines 67-94: the four calls of \<open>_derivatives\<close>, then the four assignments.
  An exception of a call leaves the object as it was, so the failing step has no state.
\<close>

definition step :: "pendulum \<Rightarrow> real \<Rightarrow> error + pendulum" where
  "step p dt =
     (let th1 = theta1 p; th2 = theta2 p; w1 = omega1 p; w2 = omega2 p in
      case derivatives p th1 th2 w1 w2 of
        Inl e \<Rightarrow> Inl e
      | Inr (k10, k11, k12, k13) \<Rightarrow>
      (case derivatives p (th1 + 0.5 * dt * k10) (th2 + 0.5 * dt * k11)
                          (w1 + 0.5 * dt * k12) (w2 + 0.5 * dt * k13) of
        Inl e \<Rightarrow> Inl e
      | Inr (k20, k21, k22, k23) \<Rightarrow>
      (case derivatives p (th1 + 0.5 * dt * k20) (th2 + 0.5 * dt * k21)
                          (w1 + 0.5 * dt * k22) (w2 + 0.5 * dt * k23) of
        Inl e \<Rightarrow> Inl e
      | Inr (k30, k31, k32, k33) \<Rightarrow>
      (case derivatives p (th1 + dt * k30) (th2 + dt * k31)
                          (w1 + dt * k32) (w2 + dt * k33) of
        Inl e \<Rightarrow> Inl e
      | Inr (k40, k41, k42, k43) \<Rightarrow>
          Inr (p\<lparr>theta1 := theta1 p + dt / 6 * (k10 + 2 * k20 + 2 * k30 + k40),
                 theta2 := theta2 p + dt / 6 * (k11 + 2 * k21 + 2 * k31 + k41),
                 omega1 := omega1 p + dt / 6 * (k12 + 2 * k22 + 2 * k32 + k42),
                 omega2 := omega2 p + dt / 6 * (k13 + 2 * k23 + 2 * k33 + k43)\<rparr>)))))"

text \<open>\<open>positions\<close>, lines 96-101.\<close>

definition positions :: "pendulum \<Rightarrow> (real \<times> real) \<times> (real \<times> real)" where
  "positions p =
     (let x1 = L1 p * sin (theta1 p);
          y1 = L1 p * cos (theta1 p);
          x2 = x1 + L2 p * sin (theta2 p);
          y2 = y1 + L2 p * cos (theta2 p)
      in ((x1, y1), (x2, y2)))"

text \<open>\<open>energy\<close>, lines 103-116.\<close>

definition energy :: "pendulum \<Rightarrow> real" where
  "energy p =
     (case positions p of ((x1, y1), (x2, y2)) \<Rightarrow>
        let v1_sq = (L1 p * omega1 p)\<^sup>2;
            v2_sq = v1_sq + (L2 p * omega2 p)\<^sup>2
                    + 2 * L1 p * L2 p * omega1 p * omega2 p * cos (theta1 p - theta2 p);
            T = 0.5 * m1 p * v1_sq + 0.5 * m2 p * v2_sq;
            V = - g p * (m1 p * y1 + m2 p * y2)
        in T + V)"

text \<open>\<open>reset\<close>, lines 27-32, with \<open>None\<close> for an argument left out.\<close>

definition reset :: "pendulum \<Rightarrow> real option \<Rightarrow> real option \<Rightarrow> pendulum" where
  "reset p t1 t2 =
     (let p' = p\<lparr>theta1 := (case t1 of Some a \<Rightarrow> a | None \<Rightarrow> pi / 2),
                  theta2 := (case t2 of Some a \<Rightarrow> a | None \<Rightarrow> pi / 2),
                  omega1 := 0, omega2 := 0\<rparr>
      in p'\<lparr>initial_energy := Some (energy p')\<rparr>)"

text \<open>
  The HUD's energy lines, \<open>_draw_hud\<close> lines 473-478: the energy shown, the drift, and
  the pendulum with its reference set when it was \<open>None\<close>.
\<close>

definition draw_hud_energy :: "pendulum \<Rightarrow> (real \<times> real) \<times> pendulum" where
  "draw_hud_energy p =
     (let energy_now = energy p in
      case initial_energy p of
        None \<Rightarrow> ((energy_now, energy_now - energy_now), p\<lparr>initial_energy := Some energy_now\<rparr>)
      | Some e0 \<Rightarrow> ((energy_now, energy_now - e0), p))"

text \<open>
  The parameters the theorems are about: masses and lengths positive, as the sliders
  (lines 518-521) and the constructor call of line 255 supply them.
\<close>

definition positive_params :: "pendulum \<Rightarrow> bool" where
  "positive_params p = (0 < m1 p \<and> 0 < m2 p \<and> 0 < L1 p \<and> 0 < L2 p)"

subsection \<open>The classical Runge-Kutta scheme, as the specification words it\<close>

text \<open>
  Four evaluations of the right-hand side \<open>f\<close>: at the base point, at two midpoint
  estimates taken with half the step, and at a full-step estimate; the increment is
  \<open>h / 6\<close> times the sum weighted 1, 2, 2, 1. An evaluation that fails ends the step.
\<close>

type_synonym vec4 = "real \<times> real \<times> real \<times> real"

fun vadd :: "vec4 \<Rightarrow> vec4 \<Rightarrow> vec4" where
  "vadd (a, b, c, d) (a', b', c', d') = (a + a', b + b', c + c', d + d')"

fun vscale :: "real \<Rightarrow> vec4 \<Rightarrow> vec4" where
  "vscale r (a, b, c, d) = (r * a, r * b, r * c, r * d)"

definition rk4_classical :: "(vec4 \<Rightarrow> error + vec4) \<Rightarrow> real \<Rightarrow> vec4 \<Rightarrow> error + vec4" where
  "rk4_classical f h y =
     (case f y of Inl e \<Rightarrow> Inl e | Inr k1 \<Rightarrow>
      (case f (vadd y (vscale (h / 2) k1)) of Inl e \<Rightarrow> Inl e | Inr k2 \<Rightarrow>
      (case f (vadd y (vscale (h / 2) k2)) of Inl e \<Rightarrow> Inl e | Inr k3 \<Rightarrow>
      (case f (vadd y (vscale h k3)) of Inl e \<Rightarrow> Inl e | Inr k4 \<Rightarrow>
         Inr (vadd y (vscale (h / 6)
                (vadd k1 (vadd (vscale 2 k2) (vadd (vscale 2 k3) k4)))))))))"

fun rhs :: "pendulum \<Rightarrow> vec4 \<Rightarrow> error + vec4" where
  "rhs p (a, b, c, d) = derivatives p a b c d"

fun with_state :: "pendulum \<Rightarrow> vec4 \<Rightarrow> pendulum" where
  "with_state p (a, b, c, d) = p\<lparr>theta1 := a, theta2 := b, omega1 := c, omega2 := d\<rparr>"

subsection \<open>The trail of class Simulator\<close>

text \<open>
  The four fields of lines 261-264. Each trail method reads the end-effector position
  through \<open>self._current_point()\<close>; here that point is the argument \<open>pt\<close>.
\<close>

type_synonym point = "real \<times> real"

record trail =
  trail_history :: "point list"
  trail_index :: int
  last_trail_index :: int
  rewind_in_progress :: bool

definition trail_init :: trail where
  "trail_init =
     \<lparr>trail_history = [], trail_index = 0, last_trail_index = 0,
      rewind_in_progress = False\<rparr>"

text \<open>
  Python's \<open>xs[i] = v\<close>: a negative index counts from the end, an index out of range
  raises \<open>IndexError\<close>.
\<close>

definition list_set :: "'a list \<Rightarrow> int \<Rightarrow> 'a \<Rightarrow> error + 'a list" where
  "list_set xs i v =
     (if 0 \<le> i \<and> i < int (length xs) then Inr (xs[nat i := v])
      else if i < 0 \<and> - int (length xs) \<le> i then Inr (xs[nat (int (length xs) + i) := v])
      else Inl IndexError)"

text \<open>\<open>_append_current_point\<close>, lines 397-400.\<close>

definition append_current_point :: "point \<Rightarrow> trail \<Rightarrow> trail" where
  "append_current_point pt t =
     (let h = trail_history t @ [pt]
      in t\<lparr>trail_history := h, trail_index := int (length h),
            last_trail_index := int (length h)\<rparr>)"

text \<open>\<open>_reset_trail_with_current\<close>, lines 386-390.\<close>

definition reset_trail_with_current :: "point \<Rightarrow> trail \<Rightarrow> trail" where
  "reset_trail_with_current pt t =
     append_current_point pt
       (t\<lparr>trail_history := [], trail_index := 0, last_trail_index := 0\<rparr>)"

text \<open>\<open>_advance_trail_forward\<close>, lines 402-409.\<close>

definition advance_trail_forward :: "point \<Rightarrow> trail \<Rightarrow> error + trail" where
  "advance_trail_forward pt t =
     (case (if trail_index t < int (length (trail_history t))
            then (case list_set (trail_history t) (trail_index t) pt of
                    Inl e \<Rightarrow> Inl e
                  | Inr h \<Rightarrow> Inr (t\<lparr>trail_history := h, trail_index := trail_index t + 1\<rparr>))
            else Inr (append_current_point pt t)) of
        Inl e \<Rightarrow> Inl e
      | Inr t' \<Rightarrow> Inr (t'\<lparr>last_trail_index := trail_index t'\<rparr>))"

text \<open>\<open>_update_trail\<close>, lines 392-395.\<close>

definition update_trail :: "point \<Rightarrow> trail \<Rightarrow> error + trail" where
  "update_trail pt t =
     (case advance_trail_forward pt t of
        Inl e \<Rightarrow> Inl e
      | Inr t' \<Rightarrow> Inr (t'\<lparr>last_trail_index := trail_index t'\<rparr>))"

text \<open>
  The rewinding branch of \<open>_step_frame\<close>, lines 379-383, with line 384. The
  assignment of line 382 is skipped on an empty history.
\<close>

definition rewind_trail :: "point \<Rightarrow> trail \<Rightarrow> error + trail" where
  "rewind_trail pt t =
     (let i = max 1 (trail_index t - 1) in
      case (if trail_history t \<noteq> [] then list_set (trail_history t) (i - 1) pt
            else Inr (trail_history t)) of
        Inl e \<Rightarrow> Inl e
      | Inr h \<Rightarrow>
          Inr (t\<lparr>trail_history := h, trail_index := i, rewind_in_progress := True,
                 last_trail_index := i\<rparr>))"

text \<open>
  What \<open>_draw\<close> does to the trail, lines 430-443: with the trail shown and the cursor
  beyond 1, a paused simulator that is not rewinding moves the cursor back up to the
  last recorded one; drawing itself is left out.
\<close>

definition draw_trail :: "bool \<Rightarrow> bool \<Rightarrow> trail \<Rightarrow> trail" where
  "draw_trail show_trail is_paused t =
     (if show_trail \<and> trail_index t > 1 then
        (let t1 = (if is_paused \<and> \<not> rewind_in_progress t
                      \<and> trail_index t < last_trail_index t
                   then t\<lparr>trail_index :=
                            min (last_trail_index t) (int (length (trail_history t)))\<rparr>
                   else t)
         in if is_paused
            then t1\<lparr>rewind_in_progress := False, last_trail_index := trail_index t1\<rparr>
            else t1)
      else t)"

text \<open>
  Sequences of trail operations, for statements about every state the buffer can
  reach: each operation with the point (or the flags) it is called with.
\<close>

datatype trail_op = ResetWith point | Advance point | StepBack point | Draw bool bool

fun apply_op :: "trail \<Rightarrow> trail_op \<Rightarrow> error + trail" where
  "apply_op t (ResetWith pt) = Inr (reset_trail_with_current pt t)"
| "apply_op t (Advance pt) = advance_trail_forward pt t"
| "apply_op t (StepBack pt) = rewind_trail pt t"
| "apply_op t (Draw show_trail is_paused) = Inr (draw_trail show_trail is_paused t)"

fun run_ops :: "trail \<Rightarrow> trail_op list \<Rightarrow> error + trail" where
  "run_ops t [] = Inr t"
| "run_ops t (x # xs) = (case apply_op t x of Inl e \<Rightarrow> Inl e | Inr t' \<Rightarrow> run_ops t' xs)"

text \<open>The cursor within the bounds of the sample sequence.\<close>

definition trail_inv :: "trail \<Rightarrow> bool" where
  "trail_inv t = (0 \<le> trail_index t \<and> trail_index t \<le> int (length (trail_history t)))"

definition trail_nonempty_inv :: "trail \<Rightarrow> bool" where
  "trail_nonempty_inv t =
     (1 \<le> trail_index t \<and> trail_index t \<le> int (length (trail_history t)))"

subsection \<open>class Simulator\<close>

text \<open>The fields the integration loop, the frame stepping and the dragging use.\<close>

record simulator =
  pendulum :: pendulum
  origin :: point
  scale :: real
  trail :: trail
  paused :: bool
  time_scale :: real
  sim_time :: real

text \<open>\<open>_current_point\<close>, lines 411-413.\<close>

definition current_point :: "simulator \<Rightarrow> point" where
  "current_point s = snd (positions (pendulum s))"

text \<open>
  The sub-stepping loop of \<open>run\<close>, lines 318-324. \<open>substeps_left\<close> bounds the
  iterations still to come; \<open>substeps\<close> lists the values \<open>dt\<close> of line 321 in order, and
  \<open>steps\<close> is \<open>step\<close> called with each element of a list in turn.
\<close>

definition max_dt :: real where
  "max_dt = 2 / 1000"

definition substeps_left :: "real \<Rightarrow> nat" where
  "substeps_left remaining = nat \<lceil>remaining * 500\<rceil>"

function integrate_substeps :: "simulator \<Rightarrow> real \<Rightarrow> error + simulator" where
  "integrate_substeps s remaining =
     (if remaining > 0 then
        (let dt = min remaining max_dt in
         case step (pendulum s) dt of
           Inl e \<Rightarrow> Inl e
         | Inr p' \<Rightarrow>
             integrate_substeps (s\<lparr>pendulum := p', sim_time := sim_time s + dt\<rparr>)
               (remaining - dt))
      else Inr s)"
  by pat_completeness auto
termination
proof -
  have dec: "substeps_left (r - min r max_dt) < substeps_left r" if "0 < r" for r :: real
  proof (cases "r \<le> max_dt")
    case True
    then have "(r - min r max_dt) * 500 = 0" by (simp add: min_def)
    moreover have "0 < \<lceil>r * 500\<rceil>" using that by simp
    ultimately show ?thesis by (simp add: substeps_left_def)
  next
    case False
    then have "(r - min r max_dt) * 500 = r * 500 - 1"
      by (simp add: min_def max_dt_def algebra_simps)
    moreover have "0 < \<lceil>r * 500\<rceil>" using that by simp
    ultimately show ?thesis by (simp add: substeps_left_def)
  qed
  show ?thesis
    by (relation "measure (\<lambda>(s, r). substeps_left r)") (auto simp: dec)
qed

function substeps :: "real \<Rightarrow> real list" where
  "substeps remaining =
     (if remaining > 0
      then min remaining max_dt # substeps (remaining - min remaining max_dt)
      else [])"
  by pat_completeness auto
termination
proof -
  have dec: "substeps_left (r - min r max_dt) < substeps_left r" if "0 < r" for r :: real
  proof (cases "r \<le> max_dt")
    case True
    then have "(r - min r max_dt) * 500 = 0" by (simp add: min_def)
    moreover have "0 < \<lceil>r * 500\<rceil>" using that by simp
    ultimately show ?thesis by (simp add: substeps_left_def)
  next
    case False
    then have "(r - min r max_dt) * 500 = r * 500 - 1"
      by (simp add: min_def max_dt_def algebra_simps)
    moreover have "0 < \<lceil>r * 500\<rceil>" using that by simp
    ultimately show ?thesis by (simp add: substeps_left_def)
  qed
  show ?thesis
    by (relation "measure substeps_left") (auto simp: dec)
qed

fun steps :: "pendulum \<Rightarrow> real list \<Rightarrow> error + pendulum" where
  "steps p [] = Inr p"
| "steps p (dt # dts) = (case step p dt of Inl e \<Rightarrow> Inl e | Inr p' \<Rightarrow> steps p' dts)"

text \<open>
  One pass of the loop body of \<open>run\<close>, lines 301-325, without the events and the
  drawing: \<open>dt_real\<close> is the clock's tick in seconds.
\<close>

definition run_tick :: "simulator \<Rightarrow> real \<Rightarrow> error + simulator" where
  "run_tick s dt_real =
     (let dt_target = dt_real * time_scale s in
      if \<not> paused s then
        (case integrate_substeps s dt_target of
           Inl e \<Rightarrow> Inl e
         | Inr s' \<Rightarrow>
             (case update_trail (current_point s') (trail s') of
                Inl e \<Rightarrow> Inl e
              | Inr t' \<Rightarrow> Inr (s'\<lparr>trail := t'\<rparr>)))
      else Inr s)"

text \<open>
  \<open>_step_frame\<close>, lines 368-384; \<open>direction\<close> is +1 or -1. A step that raises ends
  the call, so the failing call has no state.
\<close>

definition step_frame :: "simulator \<Rightarrow> real \<Rightarrow> error + simulator" where
  "step_frame s direction =
     (let frame_dt = (1 / 60) * time_scale s;
          dt = frame_dt * direction
      in case step (pendulum s) dt of
           Inl e \<Rightarrow> Inl e
         | Inr p' \<Rightarrow>
             (let s1 = s\<lparr>paused := True, pendulum := p',
                         sim_time := max 0 (sim_time s + dt)\<rparr>
              in case (if dt > 0 then advance_trail_forward (current_point s1) (trail s1)
                       else rewind_trail (current_point s1) (trail s1)) of
                   Inl e \<Rightarrow> Inl e
                 | Inr t' \<Rightarrow> Inr (s1\<lparr>trail := t'\<rparr>)))"

subsection \<open>Dragging the end mass\<close>

text \<open>
  \<open>math.hypot\<close>, \<open>math.atan2\<close> and \<open>math.acos\<close> on real numbers. \<open>atan2 y x\<close> is the
  angle of the point (x, y) in (-pi, pi], and 0 at the origin.
\<close>

definition hypot :: "real \<Rightarrow> real \<Rightarrow> real" where
  "hypot x y = sqrt (x\<^sup>2 + y\<^sup>2)"

definition atan2 :: "real \<Rightarrow> real \<Rightarrow> real" where
  "atan2 y x =
     (if 0 < x then arctan (y / x)
      else if x < 0 then (if 0 \<le> y then arctan (y / x) + pi else arctan (y / x) - pi)
      else if 0 < y then pi / 2
      else if y < 0 then - (pi / 2)
      else 0)"

definition py_acos :: "real \<Rightarrow> error + real" where
  "py_acos x = (if - 1 \<le> x \<and> x \<le> 1 then Inr (arccos x) else Inl ValueError)"

text \<open>
  Lines 741-754 of \<open>_apply_drag_end\<close> as a function of the two lengths and the target
  (x, y) in the pendulum's frame: the pair of angles assigned to \<open>theta1\<close> and \<open>theta2\<close>.
\<close>

definition ik_end :: "real \<Rightarrow> real \<Rightarrow> real \<Rightarrow> real \<Rightarrow> error + (real \<times> real)" where
  "ik_end La Lb x y =
     (let r = hypot x y;
          r = min (max r (\<bar>La - Lb\<bar> + 1 / 10000)) (La + Lb - 1 / 10000)
      in case py_div (r * r - La * La - Lb * Lb) (2 * La * Lb) of
           Inl e \<Rightarrow> Inl e
         | Inr cos_elbow \<Rightarrow>
             (let cos_elbow = max (- 1) (min 1 cos_elbow) in
              case py_acos cos_elbow of
                Inl e \<Rightarrow> Inl e
              | Inr elbow \<Rightarrow>
                  (let phi = atan2 y x;
                       theta1_x = phi - atan2 (Lb * sin elbow) (La + Lb * cos elbow);
                       theta2_x = theta1_x + elbow
                   in Inr (pi / 2 - theta1_x, pi / 2 - theta2_x))))"

text \<open>\<open>_apply_drag_end\<close>, lines 737-756.\<close>

definition apply_drag_end :: "simulator \<Rightarrow> point \<Rightarrow> error + simulator" where
  "apply_drag_end s pos =
     (case py_div (fst pos - fst (origin s)) (scale s) of
        Inl e \<Rightarrow> Inl e
      | Inr x \<Rightarrow>
          (case py_div (snd pos - snd (origin s)) (scale s) of
             Inl e \<Rightarrow> Inl e
           | Inr y \<Rightarrow>
               (case ik_end (L1 (pendulum s)) (L2 (pendulum s)) x y of
                  Inl e \<Rightarrow> Inl e
                | Inr (t1, t2) \<Rightarrow>
                    Inr (s\<lparr>pendulum := (pendulum s)\<lparr>theta1 := t1, theta2 := t2,
                                                      omega1 := 0, omega2 := 0\<rparr>\<rparr>))))"

text \<open>
  The point \<open>_drag_update\<close> (lines 718-723) puts in the trail after dragging the end
  mass: the end-effector position of the dragged pendulum.
\<close>

definition drag_end_reaches :: "simulator \<Rightarrow> point \<Rightarrow> error + point" where
  "drag_end_reaches s pos =
     (case apply_drag_end s pos of Inl e \<Rightarrow> Inl e | Inr s' \<Rightarrow> Inr (current_point s'))"

declare integrate_substeps.simps [simp del] substeps.simps [simp del]

section \<open>Properties of the pendulum\<close>

lemma den1_as_sin: "den1 p delta = m1 p * L1 p + m2 p * L1 p * (sin delta)\<^sup>2"
  by (simp add: den1_def sin_squared_eq algebra_simps)

lemma den1_lower: "0 < m2 p \<Longrightarrow> 0 < L1 p \<Longrightarrow> m1 p * L1 p \<le> den1 p delta"
  by (simp add: den1_as_sin)

lemma den1_pos: "positive_params p \<Longrightarrow> 0 < den1 p delta"
proof -
  assume pp: "positive_params p"
  then have "0 < m1 p * L1 p" by (simp add: positive_params_def)
  moreover from pp have "m1 p * L1 p \<le> den1 p delta"
    by (simp add: den1_lower positive_params_def)
  ultimately show ?thesis by linarith
qed

lemma derivatives_positive:
  assumes "positive_params p"
  shows "derivatives p a b c d =
           Inr (c, d,
                (m2 p * L1 p * c\<^sup>2 * sin (b - a) * cos (b - a)
                 + m2 p * g p * sin b * cos (b - a)
                 + m2 p * L2 p * d\<^sup>2 * sin (b - a)
                 - (m1 p + m2 p) * g p * sin a) / den1 p (b - a) - damping p * c,
                (- m2 p * L2 p * d\<^sup>2 * sin (b - a) * cos (b - a)
                 + (m1 p + m2 p)
                   * (g p * sin a * cos (b - a) - L1 p * c\<^sup>2 * sin (b - a) - g p * sin b))
                / (L2 p / L1 p * den1 p (b - a)) - damping p * d)"
proof -
  from assms have l: "L1 p \<noteq> 0" "L2 p \<noteq> 0" by (simp_all add: positive_params_def)
  from assms have d: "den1 p (b - a) \<noteq> 0" using den1_pos [of p "b - a"] by simp
  show ?thesis by (simp add: derivatives_def py_div_def Let_def l d)
qed

lemma derivatives_total: "positive_params p \<Longrightarrow> \<exists>k. derivatives p a b c d = Inr k"
  by (simp add: derivatives_positive)

lemma derivatives_not_Inl: "positive_params p \<Longrightarrow> derivatives p a b c d \<noteq> Inl e"
  by (simp add: derivatives_positive)

lemma step_keeps_params:
  "step p dt = Inr p' \<Longrightarrow>
     m1 p' = m1 p \<and> m2 p' = m2 p \<and> L1 p' = L1 p \<and> L2 p' = L2 p \<and> g p' = g p
     \<and> damping p' = damping p \<and> initial_energy p' = initial_energy p"
  by (auto simp: step_def Let_def split: sum.splits prod.splits)

lemma step_keeps_positive: "step p dt = Inr p' \<Longrightarrow> positive_params p \<Longrightarrow> positive_params p'"
  using step_keeps_params [of p dt p'] by (simp add: positive_params_def)

lemma step_total: "positive_params p \<Longrightarrow> \<exists>p'. step p dt = Inr p'"
  by (auto simp: step_def Let_def derivatives_not_Inl split: sum.splits prod.splits)

lemma step_zero_id: "step p 0 = Inr p' \<Longrightarrow> p' = p"
  by (auto simp: step_def Let_def split: sum.splits prod.splits)

lemma step_as_rk4:
  "step p dt = (case rk4_classical (rhs p) dt (state p) of
                  Inl e \<Rightarrow> Inl e | Inr y \<Rightarrow> Inr (with_state p y))"
  by (auto simp: step_def rk4_classical_def state_def Let_def algebra_simps
           split: sum.splits prod.splits)

text \<open>
  C2. The default pendulum (m1 = m2 = L1 = L2 = 1, g = 9.81, no damping, both angles
  pi/2, at rest) has joint 1 at (1, 0) and joint 2 at (2, 0), and its energy is 0: both
  heights are L cos (pi/2) = 0 and nothing moves.
\<close>

theorem default_positions_energy:
  "positions DoublePendulum_default = ((1, 0), (2, 0)) \<and> energy DoublePendulum_default = 0"
  by (simp add: positions_def energy_def DoublePendulum_default_def DoublePendulum_def)

theorem default_energy_not_minus_29:
  "\<not> \<bar>energy DoublePendulum_default - (- 2943 / 100)\<bar> \<le> 1 / 100"
  by (simp add: positions_def energy_def DoublePendulum_default_def DoublePendulum_def)

text \<open>
  C4. With m1, m2 and L1 positive the denominator \<open>den1\<close> is at least m1 L1, which is
  positive, for every angle difference; with L2 positive as well the second denominator
  (L2 / L1) den1 is positive and \<open>_derivatives\<close> returns a value, never an error.
\<close>

theorem den1_bounded_below:
  assumes "0 < m1 p" "0 < m2 p" "0 < L1 p"
  shows "m1 p * L1 p \<le> den1 p (th2 - th1) \<and> 0 < m1 p * L1 p
         \<and> (0 < L2 p \<longrightarrow>
              0 < L2 p / L1 p * den1 p (th2 - th1)
              \<and> (\<exists>k. derivatives p th1 th2 w1 w2 = Inr k))"
proof -
  have a: "m1 p * L1 p \<le> den1 p (th2 - th1)" using assms by (simp add: den1_lower)
  have b: "0 < m1 p * L1 p" using assms by simp
  have c: "0 < den1 p (th2 - th1)" using a b by linarith
  have d: "0 < L2 p / L1 p * den1 p (th2 - th1)" if "0 < L2 p"
    using that assms c by simp
  have e: "\<exists>k. derivatives p th1 th2 w1 w2 = Inr k" if "0 < L2 p"
  proof -
    have "positive_params p" using that assms by (simp add: positive_params_def)
    then show ?thesis by (rule derivatives_total)
  qed
  show ?thesis using a b d e by blast
qed

theorem den1_bounded_below_witness:
  "0 < m1 DoublePendulum_default \<and> 0 < m2 DoublePendulum_default
   \<and> 0 < L1 DoublePendulum_default \<and> 0 < L2 DoublePendulum_default
   \<and> 1 \<le> den1 DoublePendulum_default 0
   \<and> (\<exists>k. derivatives DoublePendulum_default 0 0 0 0 = Inr k)"
  using den1_bounded_below [of DoublePendulum_default 0 0 0 0]
  by (simp add: DoublePendulum_default_def DoublePendulum_def)

text \<open>
  C5. One step is the classical fourth-order Runge-Kutta step of \<open>_derivatives\<close>: it is
  \<open>rk4_classical\<close> on the state, and with positive parameters the four evaluations
  k1 (base state), k2 and k3 (midpoints, half step) and k4 (full step) all succeed and
  each component moves by dt / 6 times k1 + 2 k2 + 2 k3 + k4, for every dt, negative
  ones included.
\<close>

theorem step_is_rk4:
  "step p dt = (case rk4_classical (rhs p) dt (state p) of
                  Inl e \<Rightarrow> Inl e | Inr y \<Rightarrow> Inr (with_state p y))
   \<and> (positive_params p \<longrightarrow>
        (\<exists>k1 k2 k3 k4.
           rhs p (state p) = Inr k1
           \<and> rhs p (vadd (state p) (vscale (dt / 2) k1)) = Inr k2
           \<and> rhs p (vadd (state p) (vscale (dt / 2) k2)) = Inr k3
           \<and> rhs p (vadd (state p) (vscale dt k3)) = Inr k4
           \<and> step p dt =
               Inr (with_state p
                      (vadd (state p)
                         (vscale (dt / 6)
                            (vadd k1 (vadd (vscale 2 k2) (vadd (vscale 2 k3) k4))))))))"
proof (intro conjI impI)
  show r: "step p dt = (case rk4_classical (rhs p) dt (state p) of
                          Inl e \<Rightarrow> Inl e | Inr y \<Rightarrow> Inr (with_state p y))"
    by (rule step_as_rk4)
  assume pp: "positive_params p"
  have tot: "\<exists>k. rhs p y = Inr k" for y
  proof -
    obtain a b c d where y: "y = (a, b, c, d)" by (cases y) auto
    obtain k where "derivatives p a b c d = Inr k"
      using derivatives_total [OF pp, of a b c d] by blast
    then have "rhs p y = Inr k" by (simp add: y)
    then show ?thesis by blast
  qed
  obtain k1 where k1: "rhs p (state p) = Inr k1" using tot by blast
  obtain k2 where k2: "rhs p (vadd (state p) (vscale (dt / 2) k1)) = Inr k2"
    using tot by blast
  obtain k3 where k3: "rhs p (vadd (state p) (vscale (dt / 2) k2)) = Inr k3"
    using tot by blast
  obtain k4 where k4: "rhs p (vadd (state p) (vscale dt k3)) = Inr k4"
    using tot by blast
  have "step p dt =
          Inr (with_state p
                 (vadd (state p)
                    (vscale (dt / 6)
                       (vadd k1 (vadd (vscale 2 k2) (vadd (vscale 2 k3) k4))))))"
    by (simp add: r rk4_classical_def k1 k2 k3 k4)
  with k1 k2 k3 k4
  show "\<exists>k1 k2 k3 k4.
           rhs p (state p) = Inr k1
           \<and> rhs p (vadd (state p) (vscale (dt / 2) k1)) = Inr k2
           \<and> rhs p (vadd (state p) (vscale (dt / 2) k2)) = Inr k3
           \<and> rhs p (vadd (state p) (vscale dt k3)) = Inr k4
           \<and> step p dt =
               Inr (with_state p
                      (vadd (state p)
                         (vscale (dt / 6)
                            (vadd k1 (vadd (vscale 2 k2) (vadd (vscale 2 k3) k4))))))"
    by blast
qed

theorem step_is_rk4_witness:
  "positive_params (reset DoublePendulum_default (Some 0) (Some 0))
   \<and> step (reset DoublePendulum_default (Some 0) (Some 0)) (- 1)
       = Inr (with_state (reset DoublePendulum_default (Some 0) (Some 0)) (0, 0, 0, 0))"
proof -
  let ?p = "reset DoublePendulum_default (Some 0) (Some 0)"
  have pp: "positive_params ?p"
    by (simp add: positive_params_def reset_def Let_def DoublePendulum_default_def
                  DoublePendulum_def)
  have st: "state ?p = (0, 0, 0, 0)"
    by (simp add: state_def reset_def Let_def)
  have z: "derivatives ?p 0 0 0 0 = Inr (0, 0, 0, 0)"
    by (simp add: derivatives_positive [OF pp])
  from step_is_rk4 [of ?p "- 1"] pp
  obtain k1 k2 k3 k4 where
    k: "rhs ?p (state ?p) = Inr k1"
       "rhs ?p (vadd (state ?p) (vscale (- 1 / 2) k1)) = Inr k2"
       "rhs ?p (vadd (state ?p) (vscale (- 1 / 2) k2)) = Inr k3"
       "rhs ?p (vadd (state ?p) (vscale (- 1) k3)) = Inr k4"
    and s: "step ?p (- 1) =
              Inr (with_state ?p
                     (vadd (state ?p)
                        (vscale (- 1 / 6)
                           (vadd k1 (vadd (vscale 2 k2) (vadd (vscale 2 k3) k4))))))"
    by auto
  from k(1) have e1: "k1 = (0, 0, 0, 0)" by (simp add: st z)
  from k(2) have e2: "k2 = (0, 0, 0, 0)" by (simp add: st z e1)
  from k(3) have e3: "k3 = (0, 0, 0, 0)" by (simp add: st z e2)
  from k(4) have e4: "k4 = (0, 0, 0, 0)" by (simp add: st z e3)
  from s have "step ?p (- 1) = Inr (with_state ?p (0, 0, 0, 0))"
    by (simp add: st e1 e2 e3 e4)
  with pp show ?thesis by simp
qed

text \<open>
  C6. The energy is T + V with T = m1 (L1 omega1)^2 / 2 + m2 ((L1 omega1)^2 +
  (L2 omega2)^2 + 2 L1 L2 omega1 omega2 cos (theta1 - theta2)) / 2 and
  V = - g (m1 y1 + m2 y2), y1 and y2 the second coordinates that \<open>positions\<close> returns.
  It is computed from the current state and parameters alone: the stored reference
  energy has no part in it, and the HUD shows this value whatever the reference is.
\<close>

theorem energy_is_T_plus_V:
  "energy p =
     (1 / 2 * m1 p * (L1 p * omega1 p)\<^sup>2
      + 1 / 2 * m2 p * ((L1 p * omega1 p)\<^sup>2 + (L2 p * omega2 p)\<^sup>2
                        + 2 * L1 p * L2 p * omega1 p * omega2 p * cos (theta1 p - theta2 p)))
     + (- g p * (m1 p * snd (fst (positions p)) + m2 p * snd (snd (positions p))))
   \<and> snd (fst (positions p)) = L1 p * cos (theta1 p)
   \<and> snd (snd (positions p)) = L1 p * cos (theta1 p) + L2 p * cos (theta2 p)
   \<and> energy (p\<lparr>initial_energy := e\<rparr>) = energy p
   \<and> fst (fst (draw_hud_energy (p\<lparr>initial_energy := e\<rparr>))) = energy p"
  by (simp add: energy_def positions_def draw_hud_energy_def Let_def split: option.splits)

text \<open>
  C10. A step of size 0 returns the pendulum it was given, whatever the parameters,
  when it returns at all, and with positive masses and lengths it does return; a step
  of any size leaves m1, m2, L1, L2, g and damping as they were.
\<close>

theorem step_zero_identity:
  "(\<forall>p'. step p 0 = Inr p' \<longrightarrow> p' = p)
   \<and> (positive_params p \<longrightarrow> step p 0 = Inr p)
   \<and> (\<forall>dt p'. step p dt = Inr p' \<longrightarrow>
         m1 p' = m1 p \<and> m2 p' = m2 p \<and> L1 p' = L1 p \<and> L2 p' = L2 p
         \<and> g p' = g p \<and> damping p' = damping p)"
proof (intro conjI allI impI)
  fix p' assume "step p 0 = Inr p'"
  then show "p' = p" by (rule step_zero_id)
next
  assume "positive_params p"
  then obtain q where q: "step p 0 = Inr q" using step_total by blast
  then have "q = p" by (rule step_zero_id)
  with q show "step p 0 = Inr p" by simp
next
  fix dt p' assume s: "step p dt = Inr p'"
  show "m1 p' = m1 p" using step_keeps_params [OF s] by simp
  show "m2 p' = m2 p" using step_keeps_params [OF s] by simp
  show "L1 p' = L1 p" using step_keeps_params [OF s] by simp
  show "L2 p' = L2 p" using step_keeps_params [OF s] by simp
  show "g p' = g p" using step_keeps_params [OF s] by simp
  show "damping p' = damping p" using step_keeps_params [OF s] by simp
qed

theorem step_zero_identity_witness:
  "positive_params DoublePendulum_default
   \<and> step DoublePendulum_default 0 = Inr DoublePendulum_default
   \<and> g DoublePendulum_default = 981 / 100"
  using step_zero_identity [of DoublePendulum_default]
  by (simp add: positive_params_def DoublePendulum_default_def DoublePendulum_def)

section \<open>Properties of the trail\<close>

lemma reset_trail_value:
  "reset_trail_with_current pt t =
     t\<lparr>trail_history := [pt], trail_index := 1, last_trail_index := 1\<rparr>"
  by (simp add: reset_trail_with_current_def append_current_point_def Let_def)

lemma advance_overwrite:
  assumes "0 \<le> trail_index t" "trail_index t < int (length (trail_history t))"
  shows "advance_trail_forward pt t =
           Inr (t\<lparr>trail_history := (trail_history t)[nat (trail_index t) := pt],
                  trail_index := trail_index t + 1,
                  last_trail_index := trail_index t + 1\<rparr>)"
  using assms by (simp add: advance_trail_forward_def list_set_def Let_def)

lemma advance_append:
  assumes "\<not> trail_index t < int (length (trail_history t))"
  shows "advance_trail_forward pt t =
           Inr (t\<lparr>trail_history := trail_history t @ [pt],
                  trail_index := int (length (trail_history t)) + 1,
                  last_trail_index := int (length (trail_history t)) + 1\<rparr>)"
  using assms by (simp add: advance_trail_forward_def append_current_point_def Let_def)

lemma rewind_value:
  assumes "trail_inv t" "trail_history t \<noteq> []"
  shows "rewind_trail pt t =
           Inr (t\<lparr>trail_history :=
                    (trail_history t)[nat (max 1 (trail_index t - 1) - 1) := pt],
                  trail_index := max 1 (trail_index t - 1),
                  rewind_in_progress := True,
                  last_trail_index := max 1 (trail_index t - 1)\<rparr>)"
proof -
  have n: "1 \<le> int (length (trail_history t))"
    using assms(2) by (cases "trail_history t") simp_all
  have i: "0 \<le> max 1 (trail_index t - 1) - 1"
          "max 1 (trail_index t - 1) - 1 < int (length (trail_history t))"
    using assms(1) n unfolding trail_inv_def by linarith+
  have "list_set (trail_history t) (max 1 (trail_index t - 1) - 1) pt =
          Inr ((trail_history t)[nat (max 1 (trail_index t - 1) - 1) := pt])"
    using i by (simp add: list_set_def Let_def)
  then show ?thesis by (simp add: rewind_trail_def Let_def assms(2))
qed

lemma nonempty_inv_inv: "trail_nonempty_inv t \<Longrightarrow> trail_inv t \<and> trail_history t \<noteq> []"
  by (auto simp: trail_nonempty_inv_def trail_inv_def)

lemma reset_nonempty_inv: "trail_nonempty_inv (reset_trail_with_current pt t)"
  by (simp add: reset_trail_value trail_nonempty_inv_def)

lemma advance_nonempty_inv:
  assumes "trail_inv t"
  shows "\<exists>t'. advance_trail_forward pt t = Inr t' \<and> trail_nonempty_inv t'"
proof (cases "trail_index t < int (length (trail_history t))")
  case True
  from assms have z: "0 \<le> trail_index t" by (simp add: trail_inv_def)
  show ?thesis using True z
    by (simp add: advance_overwrite [OF z True] trail_nonempty_inv_def)
next
  case False
  show ?thesis
    by (simp add: advance_append [OF False] trail_nonempty_inv_def)
qed

lemma rewind_nonempty_inv:
  assumes "trail_inv t" "trail_history t \<noteq> []"
  shows "\<exists>t'. rewind_trail pt t = Inr t' \<and> trail_nonempty_inv t'
              \<and> trail_index t' = max 1 (trail_index t - 1)"
proof -
  have n: "1 \<le> int (length (trail_history t))"
    using assms(2) by (cases "trail_history t") simp_all
  show ?thesis using assms(1) n
    by (simp add: rewind_value [OF assms] trail_nonempty_inv_def trail_inv_def max_def)
qed

lemma draw_inv: "trail_inv t \<Longrightarrow> trail_inv (draw_trail a b t)"
  by (auto simp: draw_trail_def Let_def trail_inv_def min_def)

lemma draw_nonempty_inv: "trail_nonempty_inv t \<Longrightarrow> trail_nonempty_inv (draw_trail a b t)"
  by (auto simp: draw_trail_def Let_def trail_nonempty_inv_def min_def)

lemma apply_op_nonempty_inv:
  assumes "trail_nonempty_inv t"
  shows "\<exists>t'. apply_op t x = Inr t' \<and> trail_nonempty_inv t'"
proof (cases x)
  case (ResetWith pt)
  then show ?thesis by (simp add: reset_nonempty_inv)
next
  case (Advance pt)
  from assms have "trail_inv t" by (simp add: nonempty_inv_inv)
  from advance_nonempty_inv [OF this, of pt] Advance show ?thesis by simp
next
  case (StepBack pt)
  from assms have "trail_inv t" "trail_history t \<noteq> []" by (simp_all add: nonempty_inv_inv)
  from rewind_nonempty_inv [OF this, of pt] StepBack show ?thesis by auto
next
  case (Draw a b)
  then show ?thesis using assms by (simp add: draw_nonempty_inv)
qed

lemma run_ops_nonempty_inv:
  "trail_nonempty_inv t \<Longrightarrow> \<exists>t'. run_ops t xs = Inr t' \<and> trail_nonempty_inv t'"
proof (induction xs arbitrary: t)
  case Nil
  then show ?case by simp
next
  case (Cons x xs)
  obtain t1 where t1: "apply_op t x = Inr t1" "trail_nonempty_inv t1"
    using apply_op_nonempty_inv [OF Cons.prems] by blast
  obtain t' where "run_ops t1 xs = Inr t'" "trail_nonempty_inv t'"
    using Cons.IH [OF t1(2)] by blast
  then show ?case by (simp add: t1(1))
qed

lemma advance_effect:
  assumes "trail_inv t"
  shows "\<exists>t'. advance_trail_forward pt t = Inr t' \<and> trail_inv t'
              \<and> (if trail_index t < int (length (trail_history t))
                  then trail_history t' = (trail_history t)[nat (trail_index t) := pt]
                       \<and> trail_index t' = trail_index t + 1
                  else trail_history t' = trail_history t @ [pt]
                       \<and> trail_index t' = int (length (trail_history t')))"
proof (cases "trail_index t < int (length (trail_history t))")
  case True
  from assms have z: "0 \<le> trail_index t" by (simp add: trail_inv_def)
  show ?thesis using True z
    by (simp add: advance_overwrite [OF z True] trail_inv_def)
next
  case False
  show ?thesis using False
    by (simp add: advance_append [OF False] trail_inv_def)
qed

text \<open>
  C8. From any buffer, a reset with p and three advances leave four samples and the
  cursor at 4; stepping back then puts the cursor at 3 and writes the current point q
  over the sample at position 2; the next advance writes p4 over the sample at
  position 3, the length staying 4, and puts the cursor at 4.
\<close>

theorem trail_scenario:
  "run_ops t0 [ResetWith p, Advance p1, Advance p2, Advance p3] =
     Inr (t0\<lparr>trail_history := [p, p1, p2, p3], trail_index := 4, last_trail_index := 4\<rparr>)
   \<and> run_ops t0 [ResetWith p, Advance p1, Advance p2, Advance p3, StepBack q] =
     Inr (t0\<lparr>trail_history := [p, p1, q, p3], trail_index := 3, last_trail_index := 3,
            rewind_in_progress := True\<rparr>)
   \<and> run_ops t0 [ResetWith p, Advance p1, Advance p2, Advance p3, StepBack q, Advance p4] =
     Inr (t0\<lparr>trail_history := [p, p1, q, p4], trail_index := 4, last_trail_index := 4,
            rewind_in_progress := True\<rparr>)
   \<and> length [p, p1, q, p4] = 4"
  by (simp add: reset_trail_value advance_trail_forward_def append_current_point_def
        rewind_trail_def list_set_def Let_def numeral_2_eq_2 numeral_3_eq_3)

text \<open>
  C9. The cursor stays within the bounds of the sample sequence, 0 <= index <= length,
  in the empty buffer of the constructor and in every state reached from the
  constructor's reset by resets, advances, steps back and drawing, none of which fails
  there; every such state has at least one sample. A reset leaves one sample and
  index 1; an advance from a state within bounds stays within bounds, overwriting at
  the cursor and moving it on when index < length and appending otherwise; a step back
  from a state within bounds that has a sample stays within bounds with the index
  lowered by one but not below 1; drawing keeps the bounds.
\<close>

theorem trail_cursor_in_bounds:
  "trail_inv trail_init
   \<and> (\<exists>t. run_ops (reset_trail_with_current pt0 trail_init) ops = Inr t
           \<and> trail_inv t \<and> trail_history t \<noteq> [])
   \<and> reset_trail_with_current pt t0 =
       t0\<lparr>trail_history := [pt], trail_index := 1, last_trail_index := 1\<rparr>
   \<and> (trail_inv t0 \<longrightarrow>
        (\<exists>t'. advance_trail_forward pt t0 = Inr t' \<and> trail_inv t'
              \<and> (if trail_index t0 < int (length (trail_history t0))
                  then trail_history t' = (trail_history t0)[nat (trail_index t0) := pt]
                       \<and> trail_index t' = trail_index t0 + 1
                  else trail_history t' = trail_history t0 @ [pt]
                       \<and> trail_index t' = int (length (trail_history t')))))
   \<and> (trail_inv t0 \<and> trail_history t0 \<noteq> [] \<longrightarrow>
        (\<exists>t'. rewind_trail pt t0 = Inr t' \<and> trail_inv t'
              \<and> trail_index t' = max 1 (trail_index t0 - 1)))
   \<and> (trail_inv t0 \<longrightarrow> trail_inv (draw_trail sh pa t0))"
proof (intro conjI impI)
  show "trail_inv trail_init" by (simp add: trail_inv_def trail_init_def)
  show "\<exists>t. run_ops (reset_trail_with_current pt0 trail_init) ops = Inr t
           \<and> trail_inv t \<and> trail_history t \<noteq> []"
    using run_ops_nonempty_inv [OF reset_nonempty_inv, of pt0 trail_init ops]
      nonempty_inv_inv by blast
  show "reset_trail_with_current pt t0 =
          t0\<lparr>trail_history := [pt], trail_index := 1, last_trail_index := 1\<rparr>"
    by (rule reset_trail_value)
  show "\<exists>t'. advance_trail_forward pt t0 = Inr t' \<and> trail_inv t'
              \<and> (if trail_index t0 < int (length (trail_history t0))
                  then trail_history t' = (trail_history t0)[nat (trail_index t0) := pt]
                       \<and> trail_index t' = trail_index t0 + 1
                  else trail_history t' = trail_history t0 @ [pt]
                       \<and> trail_index t' = int (length (trail_history t')))"
    if "trail_inv t0" using that by (rule advance_effect)
  show "\<exists>t'. rewind_trail pt t0 = Inr t' \<and> trail_inv t'
              \<and> trail_index t' = max 1 (trail_index t0 - 1)"
    if "trail_inv t0 \<and> trail_history t0 \<noteq> []"
    using rewind_nonempty_inv [of t0 pt] that nonempty_inv_inv by blast
  show "trail_inv (draw_trail sh pa t0)" if "trail_inv t0"
    using that by (rule draw_inv)
qed

theorem trail_cursor_in_bounds_witness:
  "trail_inv (reset_trail_with_current (0, 0) trail_init)
   \<and> trail_history (reset_trail_with_current (0, 0) trail_init) \<noteq> []
   \<and> (\<exists>t'. rewind_trail (1, 1) (reset_trail_with_current (0, 0) trail_init) = Inr t'
           \<and> trail_inv t' \<and> trail_index t' = 1)"
  using trail_cursor_in_bounds
          [where pt = "(1, 1)" and ?t0.0 = "reset_trail_with_current (0, 0) trail_init"]
  by (simp add: reset_trail_value trail_inv_def trail_init_def)

theorem rewind_empty_leaves_bounds:
  "trail_inv trail_init
   \<and> rewind_trail (0, 0) trail_init =
       Inr \<lparr>trail_history = [], trail_index = 1, last_trail_index = 1,
            rewind_in_progress = True\<rparr>
   \<and> \<not> trail_inv \<lparr>trail_history = [], trail_index = 1, last_trail_index = 1,
                   rewind_in_progress = True\<rparr>"
  by (simp add: trail_inv_def trail_init_def rewind_trail_def Let_def)

section \<open>Properties of the sub-stepping loop\<close>

lemma substeps_unfold_pos:
  "0 < r \<Longrightarrow> substeps r = min r max_dt # substeps (r - min r max_dt)"
  by (subst substeps.simps) simp

lemma substeps_unfold_nonpos: "\<not> 0 < r \<Longrightarrow> substeps r = []"
  by (subst substeps.simps) simp

lemma integrate_substeps_unfold_pos:
  "0 < r \<Longrightarrow>
   integrate_substeps s r =
     (case step (pendulum s) (min r max_dt) of
        Inl e \<Rightarrow> Inl e
      | Inr p' \<Rightarrow>
          integrate_substeps (s\<lparr>pendulum := p', sim_time := sim_time s + min r max_dt\<rparr>)
            (r - min r max_dt))"
  by (subst integrate_substeps.simps) (simp add: Let_def)

lemma integrate_substeps_unfold_nonpos: "\<not> 0 < r \<Longrightarrow> integrate_substeps s r = Inr s"
  by (subst integrate_substeps.simps) simp

lemma substeps_bounds: "dt \<in> set (substeps r) \<Longrightarrow> 0 < dt \<and> dt \<le> max_dt"
proof (induction r rule: substeps.induct)
  case (1 r)
  show ?case
  proof (cases "0 < r")
    case True
    from "1.prems" have "dt = min r max_dt \<or> dt \<in> set (substeps (r - min r max_dt))"
      by (simp add: substeps_unfold_pos [OF True])
    then show ?thesis
    proof
      assume "dt = min r max_dt"
      then show ?thesis using True by (simp add: max_dt_def)
    next
      assume "dt \<in> set (substeps (r - min r max_dt))"
      then show ?thesis using "1.IH" True by blast
    qed
  next
    case False
    with "1.prems" show ?thesis by (simp add: substeps_unfold_nonpos)
  qed
qed

lemma substeps_sum: "sum_list (substeps r) = max r 0"
proof (induction r rule: substeps.induct)
  case (1 r)
  show ?case
  proof (cases "0 < r")
    case True
    note u = substeps_unfold_pos [OF True]
    have ih: "sum_list (substeps (r - min r max_dt)) = max (r - min r max_dt) 0"
      using "1.IH" True by blast
    show ?thesis
    proof (cases "r \<le> max_dt")
      case le: True
      then have m: "min r max_dt = r" by (simp add: min_def)
      have "substeps r = [r]" by (simp add: u m substeps_unfold_nonpos)
      then show ?thesis using True by (simp add: max_def)
    next
      case gt: False
      then have m: "min r max_dt = max_dt" by (simp add: min_def)
      have ih': "sum_list (substeps (r - max_dt)) = r - max_dt"
        using ih gt by (simp add: m max_def)
      have "substeps r = max_dt # substeps (r - max_dt)" by (simp add: u m)
      then show ?thesis using True by (simp add: ih' max_def)
    qed
  next
    case False
    then show ?thesis by (simp add: substeps_unfold_nonpos max_def)
  qed
qed

lemma substeps_butlast: "dt \<in> set (butlast (substeps r)) \<Longrightarrow> dt = max_dt"
proof (induction r rule: substeps.induct)
  case (1 r)
  show ?case
  proof (cases "0 < r")
    case True
    note u = substeps_unfold_pos [OF True]
    show ?thesis
    proof (cases "r \<le> max_dt")
      case le: True
      then have m: "min r max_dt = r" by (simp add: min_def)
      have "substeps r = [r]" by (simp add: u m substeps_unfold_nonpos)
      with "1.prems" show ?thesis by simp
    next
      case gt: False
      then have m: "min r max_dt = max_dt" by (simp add: min_def)
      have rest: "0 < r - max_dt" using gt by simp
      have ne: "substeps (r - max_dt) \<noteq> []" by (simp add: substeps_unfold_pos [OF rest])
      from "1.prems" have "dt = max_dt \<or> dt \<in> set (butlast (substeps (r - max_dt)))"
        by (simp add: u m ne)
      then show ?thesis using "1.IH" True m by auto
    qed
  next
    case False
    with "1.prems" show ?thesis by (simp add: substeps_unfold_nonpos)
  qed
qed

lemma integrate_substeps_as_steps:
  "integrate_substeps s r =
     (case steps (pendulum s) (substeps r) of
        Inl e \<Rightarrow> Inl e
      | Inr p' \<Rightarrow> Inr (s\<lparr>pendulum := p', sim_time := sim_time s + sum_list (substeps r)\<rparr>))"
proof (induction s r rule: integrate_substeps.induct)
  case (1 s r)
  show ?case
  proof (cases "0 < r")
    case True
    note ui = integrate_substeps_unfold_pos [OF True] and us = substeps_unfold_pos [OF True]
    show ?thesis
    proof (cases "step (pendulum s) (min r max_dt)")
      case (Inl e)
      then show ?thesis by (simp add: ui us)
    next
      case (Inr p')
      note ih = "1.IH" [OF True refl Inr]
      have "integrate_substeps s r =
              integrate_substeps
                (s\<lparr>pendulum := p', sim_time := sim_time s + min r max_dt\<rparr>)
                (r - min r max_dt)"
        by (simp add: ui Inr)
      also have "\<dots> =
              (case steps (pendulum s) (substeps r) of
                 Inl e \<Rightarrow> Inl e
               | Inr p' \<Rightarrow>
                   Inr (s\<lparr>pendulum := p',
                          sim_time := sim_time s + sum_list (substeps r)\<rparr>))"
        by (simp add: ih us Inr add.assoc split: sum.splits)
      finally show ?thesis .
    qed
  next
    case False
    then show ?thesis
      by (simp add: integrate_substeps_unfold_nonpos substeps_unfold_nonpos)
  qed
qed

lemma steps_total: "positive_params p \<Longrightarrow> \<exists>p'. steps p dts = Inr p'"
proof (induction dts arbitrary: p)
  case Nil
  show ?case by simp
next
  case (Cons dt dts)
  obtain p1 where s: "step p dt = Inr p1" using step_total [OF Cons.prems] by blast
  then have "positive_params p1" using Cons.prems by (rule step_keeps_positive)
  then obtain p' where "steps p1 dts = Inr p'" using Cons.IH by blast
  then show ?case by (simp add: s)
qed

lemma integrate_substeps_total:
  assumes "positive_params (pendulum s)"
  shows "\<exists>s'. integrate_substeps s r = Inr s'"
proof -
  obtain p' where "steps (pendulum s) (substeps r) = Inr p'"
    using steps_total [OF assms] by blast
  then show ?thesis by (simp add: integrate_substeps_as_steps)
qed

text \<open>
  C1. The loop of \<open>run\<close> calls \<open>step\<close> with sub-steps that are each positive and at
  most 0.002, all but the last equal to 0.002, and that add up to the requested interval
  (to nothing when the interval is not positive); the simulator it returns is the
  one after these single Runge-Kutta steps in order, with the clock advanced by their
  sum, and with positive masses and lengths the loop returns. One call of \<open>step\<close> is one
  element of that sequence.
\<close>

theorem run_substeps:
  "(\<forall>dt \<in> set (substeps r). 0 < dt \<and> dt \<le> max_dt)
   \<and> (\<forall>dt \<in> set (butlast (substeps r)). dt = max_dt)
   \<and> sum_list (substeps r) = max r 0
   \<and> max_dt = 2 / 1000
   \<and> integrate_substeps s r =
       (case steps (pendulum s) (substeps r) of
          Inl e \<Rightarrow> Inl e
        | Inr p' \<Rightarrow>
            Inr (s\<lparr>pendulum := p', sim_time := sim_time s + sum_list (substeps r)\<rparr>))
   \<and> (positive_params (pendulum s) \<longrightarrow> (\<exists>s'. integrate_substeps s r = Inr s'))
   \<and> steps p [dt0] = step p dt0"
proof (intro conjI impI ballI)
  fix dt assume "dt \<in> set (substeps r)"
  then show "0 < dt" "dt \<le> max_dt" using substeps_bounds by blast+
next
  fix dt assume "dt \<in> set (butlast (substeps r))"
  then show "dt = max_dt" by (rule substeps_butlast)
next
  show "sum_list (substeps r) = max r 0" by (rule substeps_sum)
  show "max_dt = 2 / 1000" by (rule max_dt_def)
  show "integrate_substeps s r =
       (case steps (pendulum s) (substeps r) of
          Inl e \<Rightarrow> Inl e
        | Inr p' \<Rightarrow>
            Inr (s\<lparr>pendulum := p', sim_time := sim_time s + sum_list (substeps r)\<rparr>))"
    by (rule integrate_substeps_as_steps)
  show "\<exists>s'. integrate_substeps s r = Inr s'" if "positive_params (pendulum s)"
    using that by (rule integrate_substeps_total)
  show "steps p [dt0] = step p dt0" by (simp split: sum.splits)
qed

theorem run_substeps_witness:
  "positive_params DoublePendulum_default
   \<and> substeps (1 / 200) = [1 / 500, 1 / 500, 1 / 1000]
   \<and> (\<exists>s'. integrate_substeps
              \<lparr>pendulum = DoublePendulum_default, origin = (0, 0), scale = 1,
               trail = trail_init, paused = False, time_scale = 1, sim_time = 0\<rparr>
              (1 / 200) = Inr s')"
proof -
  let ?s = "\<lparr>pendulum = DoublePendulum_default, origin = (0, 0), scale = 1,
             trail = trail_init, paused = False, time_scale = 1, sim_time = 0\<rparr>"
  note w = run_substeps [where r = "1 / 200" and s = ?s
                           and p = DoublePendulum_default and ?dt0.0 = 0]
  have pd: "positive_params DoublePendulum_default"
    by (simp add: positive_params_def DoublePendulum_default_def DoublePendulum_def)
  then have pp: "positive_params (pendulum ?s)" by simp
  have sub: "substeps (1 / 200) = [1 / 500, 1 / 500, 1 / 1000]"
    by (simp add: substeps_unfold_pos substeps_unfold_nonpos max_dt_def)
  from w have "positive_params (pendulum ?s) \<longrightarrow> (\<exists>s'. integrate_substeps ?s (1 / 200) = Inr s')"
    by blast
  with pp have ex: "\<exists>s'. integrate_substeps ?s (1 / 200) = Inr s'" by blast
  from pd sub ex show ?thesis by blast
qed

theorem step_differs_from_substeps:
  "step \<lparr>m1 = 1, m2 = 1, L1 = 1, L2 = 1, g = 0, damping = 1,
         theta1 = 0, theta2 = 0, omega1 = 1, omega2 = 1, initial_energy = None\<rparr> (1 / 250)
   \<noteq> steps \<lparr>m1 = 1, m2 = 1, L1 = 1, L2 = 1, g = 0, damping = 1,
             theta1 = 0, theta2 = 0, omega1 = 1, omega2 = 1, initial_energy = None\<rparr>
        (substeps (1 / 250))"
proof -
  let ?p = "\<lparr>m1 = 1, m2 = 1, L1 = 1, L2 = 1, g = 0, damping = 1,
             theta1 = 0, theta2 = 0, omega1 = 1, omega2 = 1, initial_energy = None\<rparr>"
  let ?q = "\<lparr>m1 = 1, m2 = 1, L1 = 1, L2 = 1, g = 0, damping = 1,
             theta1 = 2997001999 / 1500000000000, theta2 = 2997001999 / 1500000000000,
             omega1 = 1497002998001 / 1500000000000,
             omega2 = 1497002998001 / 1500000000000, initial_energy = None\<rparr>"
  have s: "substeps (1 / 250) = [1 / 500, 1 / 500]"
    by (simp add: substeps_unfold_pos substeps_unfold_nonpos max_dt_def)
  have a: "step ?p (1 / 250) =
             Inr \<lparr>m1 = 1, m2 = 1, L1 = 1, L2 = 1, g = 0, damping = 1,
                  theta1 = 124750333 / 31250000000, theta2 = 124750333 / 31250000000,
                  omega1 = 31125249667 / 31250000000,
                  omega2 = 31125249667 / 31250000000, initial_energy = None\<rparr>"
    by (simp add: step_def derivatives_def den1_def py_div_def Let_def)
  have b: "step ?p (1 / 500) = Inr ?q"
    by (simp add: step_def derivatives_def den1_def py_div_def Let_def)
  have c: "step ?q (1 / 500) =
             Inr \<lparr>m1 = 1, m2 = 1, L1 = 1, L2 = 1, g = 0, damping = 1,
                  theta1 = 8982023976017990003999 / 2250000000000000000000000,
                  theta2 = 8982023976017990003999 / 2250000000000000000000000,
                  omega1 = 2241017976023982009996001 / 2250000000000000000000000,
                  omega2 = 2241017976023982009996001 / 2250000000000000000000000,
                  initial_energy = None\<rparr>"
    by (simp add: step_def derivatives_def den1_def py_div_def Let_def)
  show ?thesis by (simp add: s a b c)
qed

section \<open>Properties of dragging the end mass\<close>

lemma hypot_zero: "hypot x 0 = \<bar>x\<bar>"
  by (simp add: hypot_def)

lemma hypot_scaled:
  assumes "x \<noteq> 0"
  shows "hypot x y = \<bar>x\<bar> * sqrt (1 + (y / x)\<^sup>2)"
proof -
  have eq: "x\<^sup>2 + y\<^sup>2 = x\<^sup>2 * (1 + (y / x)\<^sup>2)"
    using assms by (simp add: power_divide distrib_left)
  show ?thesis unfolding hypot_def eq real_sqrt_mult by simp
qed

lemma atan2_polar:
  "hypot x y * cos (atan2 y x) = x \<and> hypot x y * sin (atan2 y x) = y"
proof -
  define S where "S = sqrt (1 + (y / x)\<^sup>2)"
  have Spos: "0 < S" unfolding S_def by (simp add: add_pos_nonneg)
  have ca: "cos (arctan (y / x)) = 1 / S" unfolding S_def by (rule cos_arctan)
  have sa: "sin (arctan (y / x)) = (y / x) / S" unfolding S_def by (rule sin_arctan)
  have hy: "hypot x y = \<bar>x\<bar> * S" if "x \<noteq> 0"
    unfolding S_def using that by (rule hypot_scaled)
  consider (right) "0 < x" | (upper_left) "x < 0" "0 \<le> y" | (lower_left) "x < 0" "y < 0"
    | (up) "x = 0" "0 < y" | (down) "x = 0" "y < 0" | (centre) "x = 0" "y = 0"
    by linarith
  then show ?thesis
  proof cases
    case right
    then have a: "atan2 y x = arctan (y / x)" by (simp add: atan2_def)
    from right have h: "hypot x y = x * S" using hy by simp
    show ?thesis using right Spos by (simp add: a h ca sa)
  next
    case upper_left
    then have a: "atan2 y x = arctan (y / x) + pi" by (simp add: atan2_def)
    from upper_left have h: "hypot x y = - x * S" using hy by simp
    show ?thesis using upper_left Spos by (simp add: a h ca sa)
  next
    case lower_left
    then have a: "atan2 y x = arctan (y / x) - pi" by (simp add: atan2_def)
    have c: "cos (arctan (y / x) - pi) = - cos (arctan (y / x))"
      and s: "sin (arctan (y / x) - pi) = - sin (arctan (y / x))"
      by (simp_all add: cos_diff sin_diff)
    from lower_left have h: "hypot x y = - x * S" using hy by simp
    show ?thesis using lower_left Spos by (simp add: a h c s ca sa)
  next
    case up
    then show ?thesis by (simp add: atan2_def hypot_def)
  next
    case down
    then show ?thesis by (simp add: atan2_def hypot_def)
  next
    case centre
    then show ?thesis by (simp add: atan2_def hypot_def)
  qed
qed

lemma two_link_closed_form:
  fixes La Lb r c phi :: real
  assumes r: "0 < r" and c1: "- 1 \<le> c" and c2: "c \<le> 1"
    and key: "La\<^sup>2 + 2 * La * Lb * c + Lb\<^sup>2 = r\<^sup>2"
  shows "La * cos (phi - atan2 (Lb * sin (arccos c)) (La + Lb * cos (arccos c)))
         + Lb * cos (phi - atan2 (Lb * sin (arccos c)) (La + Lb * cos (arccos c)) + arccos c)
         = r * cos phi"
    and "La * sin (phi - atan2 (Lb * sin (arccos c)) (La + Lb * cos (arccos c)))
         + Lb * sin (phi - atan2 (Lb * sin (arccos c)) (La + Lb * cos (arccos c)) + arccos c)
         = r * sin phi"
proof -
  define e where "e = arccos c"
  define A where "A = La + Lb * cos e"
  define B where "B = Lb * sin e"
  define psi where "psi = atan2 B A"
  define u where "u = phi - psi"
  have ce: "cos e = c" using c1 c2 by (simp add: e_def)
  have sq: "A\<^sup>2 + B\<^sup>2 = r\<^sup>2"
  proof -
    have cs: "(sin e)\<^sup>2 = 1 - (cos e)\<^sup>2" by (rule sin_squared_eq)
    have "A\<^sup>2 + B\<^sup>2 = La\<^sup>2 + 2 * La * Lb * cos e + Lb\<^sup>2"
      unfolding A_def B_def using cs
      by ((simp add: power2_sum power_mult_distrib algebra_simps; fail) | algebra)
    also have "\<dots> = La\<^sup>2 + 2 * La * Lb * c + Lb\<^sup>2" by (simp add: ce)
    also have "\<dots> = r\<^sup>2" by (rule key)
    finally show ?thesis .
  qed
  have h: "hypot A B = r" using r by (simp add: hypot_def sq)
  have pc: "A = r * cos psi" and ps: "B = r * sin psi"
    using atan2_polar [of A B] by (simp_all add: h psi_def)
  have ca: "cos (u + e) = cos u * cos e - sin u * sin e" by (rule cos_add)
  have sa: "sin (u + e) = sin u * cos e + cos u * sin e" by (rule sin_add)
  have cphi: "cos phi = cos u * cos psi - sin u * sin psi"
    using cos_add [of u psi] by (simp add: u_def)
  have sphi: "sin phi = sin u * cos psi + cos u * sin psi"
    using sin_add [of u psi] by (simp add: u_def)
  have "La * cos u + Lb * cos (u + e) = cos u * A - sin u * B"
    unfolding ca A_def B_def by (simp add: algebra_simps)
  also have "\<dots> = r * cos phi"
    unfolding cphi by (simp add: pc ps algebra_simps)
  finally have f1: "La * cos u + Lb * cos (u + e) = r * cos phi" .
  show "La * cos (phi - atan2 (Lb * sin (arccos c)) (La + Lb * cos (arccos c)))
         + Lb * cos (phi - atan2 (Lb * sin (arccos c)) (La + Lb * cos (arccos c)) + arccos c)
         = r * cos phi"
    by (rule f1 [unfolded u_def psi_def A_def B_def e_def])
  have "La * sin u + Lb * sin (u + e) = sin u * A + cos u * B"
    unfolding sa A_def B_def by (simp add: algebra_simps)
  also have "\<dots> = r * sin phi"
    unfolding sphi by (simp add: pc ps algebra_simps)
  finally have f2: "La * sin u + Lb * sin (u + e) = r * sin phi" .
  show "La * sin (phi - atan2 (Lb * sin (arccos c)) (La + Lb * cos (arccos c)))
         + Lb * sin (phi - atan2 (Lb * sin (arccos c)) (La + Lb * cos (arccos c)) + arccos c)
         = r * sin phi"
    by (rule f2 [unfolded u_def psi_def A_def B_def e_def])
qed

lemma ik_end_clamped:
  fixes La Lb x y rc :: real
  assumes La: "0 < La" and Lb: "0 < Lb"
    and rc: "rc = min (max (hypot x y) (\<bar>La - Lb\<bar> + 1 / 10000)) (La + Lb - 1 / 10000)"
    and lo: "\<bar>La - Lb\<bar> \<le> rc" and hi: "rc \<le> La + Lb" and rpos: "0 < rc"
  shows "\<exists>t1 t2. ik_end La Lb x y = Inr (t1, t2)
           \<and> La * sin t1 + Lb * sin t2 = rc * cos (atan2 y x)
           \<and> La * cos t1 + Lb * cos t2 = rc * sin (atan2 y x)"
proof -
  define N where "N = rc * rc - La * La - Lb * Lb"
  define D where "D = 2 * La * Lb"
  define c where "c = N / D"
  have Dpos: "0 < D" using La Lb by (simp add: D_def)
  have "\<bar>La - Lb\<bar> \<le> \<bar>rc\<bar>" using lo rpos by simp
  then have "(La - Lb)\<^sup>2 \<le> rc\<^sup>2" by (simp only: abs_le_square_iff)
  then have n1: "- D \<le> N" by (simp add: N_def D_def power2_eq_square algebra_simps)
  have "rc\<^sup>2 \<le> (La + Lb)\<^sup>2" using hi rpos by (simp add: power_mono)
  then have n2: "N \<le> D" by (simp add: N_def D_def power2_eq_square algebra_simps)
  have c1: "- 1 \<le> c" using n1 Dpos by (simp add: c_def field_simps)
  have c2: "c \<le> 1" using n2 Dpos by (simp add: c_def field_simps)
  have "D * c = N" using Dpos by (simp add: c_def)
  then have key: "La\<^sup>2 + 2 * La * Lb * c + Lb\<^sup>2 = rc\<^sup>2"
    by (simp add: N_def D_def power2_eq_square algebra_simps)
  have ne: "La \<noteq> 0" "Lb \<noteq> 0" using La Lb by simp_all
  have d3: "py_div (rc * rc - La * La - Lb * Lb) (2 * La * Lb) = Inr c"
    by (simp add: py_div_def c_def N_def D_def ne)
  have cl: "max (- 1) (min 1 c) = c" using c1 c2 by (simp add: max_def min_def)
  have ac: "py_acos c = Inr (arccos c)" using c1 c2 by (simp add: py_acos_def)
  define T where
    "T = atan2 y x - atan2 (Lb * sin (arccos c)) (La + Lb * cos (arccos c))"
  have v: "ik_end La Lb x y = Inr (pi / 2 - T, pi / 2 - (T + arccos c))"
    unfolding T_def
    by ((simp only: ik_end_def Let_def rc [symmetric] d3 sum.case cl ac; fail)
        | (simp add: ik_end_def Let_def d3 cl ac flip: rc))
  have sh: "sin (pi / 2 - w) = cos w" "cos (pi / 2 - w) = sin w" for w :: real
    by (simp_all add: sin_diff cos_diff)
  have px: "La * sin (pi / 2 - T) + Lb * sin (pi / 2 - (T + arccos c))
              = rc * cos (atan2 y x)"
    unfolding sh T_def by (rule two_link_closed_form(1) [OF rpos c1 c2 key])
  have py: "La * cos (pi / 2 - T) + Lb * cos (pi / 2 - (T + arccos c))
              = rc * sin (atan2 y x)"
    unfolding sh T_def by (rule two_link_closed_form(2) [OF rpos c1 c2 key])
  from v px py show ?thesis by blast
qed

lemma drag_end_clamped:
  assumes sc: "scale s \<noteq> 0" and La: "0 < L1 (pendulum s)" and Lb: "0 < L2 (pendulum s)"
    and x: "x = (fst pos - fst (origin s)) / scale s"
    and y: "y = (snd pos - snd (origin s)) / scale s"
    and rc: "rc = min (max (hypot x y)
                         (\<bar>L1 (pendulum s) - L2 (pendulum s)\<bar> + 1 / 10000))
                    (L1 (pendulum s) + L2 (pendulum s) - 1 / 10000)"
    and lo: "\<bar>L1 (pendulum s) - L2 (pendulum s)\<bar> \<le> rc"
    and hi: "rc \<le> L1 (pendulum s) + L2 (pendulum s)" and rpos: "0 < rc"
  shows "drag_end_reaches s pos = Inr (rc * cos (atan2 y x), rc * sin (atan2 y x))"
proof -
  obtain t1 t2 where ik: "ik_end (L1 (pendulum s)) (L2 (pendulum s)) x y = Inr (t1, t2)"
    and px: "L1 (pendulum s) * sin t1 + L2 (pendulum s) * sin t2 = rc * cos (atan2 y x)"
    and py: "L1 (pendulum s) * cos t1 + L2 (pendulum s) * cos t2 = rc * sin (atan2 y x)"
    using ik_end_clamped [OF La Lb rc lo hi rpos] by blast
  have d1: "py_div (fst pos - fst (origin s)) (scale s) = Inr x"
    using sc by (simp add: py_div_def x)
  have d2: "py_div (snd pos - snd (origin s)) (scale s) = Inr y"
    using sc by (simp add: py_div_def y)
  show ?thesis
    by (simp add: drag_end_reaches_def apply_drag_end_def d1 d2 ik current_point_def
          positions_def Let_def px py)
qed

text \<open>
  C3. With positive lengths and a nonzero scale, a target whose distance from the pivot
  lies between |L1 - L2| + 0.0001 and L1 + L2 - 0.0001 is reproduced exactly: after the
  end mass is dragged to it, the end-effector position that \<open>positions\<close> gives is the
  target.
\<close>

theorem drag_end_reproduces_target:
  assumes sc: "scale s \<noteq> 0" and La: "0 < L1 (pendulum s)" and Lb: "0 < L2 (pendulum s)"
    and x: "x = (fst pos - fst (origin s)) / scale s"
    and y: "y = (snd pos - snd (origin s)) / scale s"
    and lo: "\<bar>L1 (pendulum s) - L2 (pendulum s)\<bar> + 1 / 10000 \<le> hypot x y"
    and hi: "hypot x y \<le> L1 (pendulum s) + L2 (pendulum s) - 1 / 10000"
  shows "drag_end_reaches s pos = Inr (x, y)"
proof -
  have rc: "hypot x y = min (max (hypot x y)
                               (\<bar>L1 (pendulum s) - L2 (pendulum s)\<bar> + 1 / 10000))
                          (L1 (pendulum s) + L2 (pendulum s) - 1 / 10000)"
    using lo hi by (simp add: min_def max_def)
  have lo': "\<bar>L1 (pendulum s) - L2 (pendulum s)\<bar> \<le> hypot x y" using lo by linarith
  have hi': "hypot x y \<le> L1 (pendulum s) + L2 (pendulum s)" using hi by linarith
  have rpos: "0 < hypot x y" using lo by linarith
  have "drag_end_reaches s pos =
          Inr (hypot x y * cos (atan2 y x), hypot x y * sin (atan2 y x))"
    by (rule drag_end_clamped [OF sc La Lb x y rc lo' hi' rpos])
  then show ?thesis using atan2_polar [of x y] by simp
qed

theorem drag_end_reproduces_target_witness:
  "scale \<lparr>pendulum = DoublePendulum_default, origin = (0, 0), scale = 1,
          trail = trail_init, paused = True, time_scale = 1, sim_time = 0\<rparr> \<noteq> 0
   \<and> 0 < L1 DoublePendulum_default \<and> 0 < L2 DoublePendulum_default
   \<and> \<bar>L1 DoublePendulum_default - L2 DoublePendulum_default\<bar> + 1 / 10000 \<le> hypot 1 0
   \<and> hypot 1 0 \<le> L1 DoublePendulum_default + L2 DoublePendulum_default - 1 / 10000
   \<and> drag_end_reaches
       \<lparr>pendulum = DoublePendulum_default, origin = (0, 0), scale = 1,
        trail = trail_init, paused = True, time_scale = 1, sim_time = 0\<rparr> (1, 0)
     = Inr (1, 0)"
  using drag_end_reproduces_target
          [where s = "\<lparr>pendulum = DoublePendulum_default, origin = (0, 0), scale = 1,
                       trail = trail_init, paused = True, time_scale = 1, sim_time = 0\<rparr>"
             and pos = "(1, 0)" and x = 1 and y = 0]
  by (simp add: hypot_zero DoublePendulum_default_def DoublePendulum_def)

theorem drag_to_full_reach_stops_short:
  "\<bar>L1 DoublePendulum_default - L2 DoublePendulum_default\<bar> \<le> hypot 2 0
   \<and> hypot 2 0 \<le> L1 DoublePendulum_default + L2 DoublePendulum_default
   \<and> drag_end_reaches
       \<lparr>pendulum = DoublePendulum_default, origin = (0, 0), scale = 1,
        trail = trail_init, paused = True, time_scale = 1, sim_time = 0\<rparr> (2, 0)
     = Inr (19999 / 10000, 0)
   \<and> \<not> \<bar>2 - 19999 / 10000 :: real\<bar> \<le> 1 / 1000000"
proof -
  let ?s = "\<lparr>pendulum = DoublePendulum_default, origin = (0, 0), scale = 1,
             trail = trail_init, paused = True, time_scale = 1, sim_time = 0\<rparr>"
  have l: "L1 DoublePendulum_default = 1" "L2 DoublePendulum_default = 1"
    by (simp_all add: DoublePendulum_default_def DoublePendulum_def)
  have "drag_end_reaches ?s (2, 0) =
          Inr (19999 / 10000 * cos (atan2 0 2), 19999 / 10000 * sin (atan2 0 2))"
    by (rule drag_end_clamped [where x = 2 and y = 0]) (simp_all add: l hypot_zero)
  then have "drag_end_reaches ?s (2, 0) = Inr (19999 / 10000, 0)"
    by (simp add: atan2_def)
  then show ?thesis by (simp add: l hypot_zero)
qed


end
